theory Spec2Isabelle
  imports Main "HOL-Library.Word"
begin

unbundle bit_operations_syntax

section \<open>The process shell: \<^verbatim>\<open>darkspore_server/source/main.cpp\<close>\<close>

subsection \<open>Data\<close>

text \<open>
  The objects an \<^verbatim>\<open>Application\<close> owns through a \<^verbatim>\<open>std::unique_ptr\<close>. The classes
  themselves (\<^verbatim>\<open>Blaze::Server\<close>, \<^verbatim>\<open>HTTP::Server\<close>, \<^verbatim>\<open>QoS::Server\<close>, \<^verbatim>\<open>Game::API\<close>,
  \<^verbatim>\<open>SporeNet::Instance\<close>) are declared elsewhere; here an owned object is the argument
  its constructor was given, and an empty pointer is \<open>None\<close>.
\<close>

datatype member = GameAPI | RedirectorServer | BlazeServer | PssServer | TickServer
  | TestServer | HttpServer | QosServer | SporeNet

text \<open>
  What \<^verbatim>\<open>main.cpp\<close> does that an observer can see, in the order it does it. The
  construction and the destruction of an owned object are single steps: the constructors
  and destructors are not part of this file. The last four constructors are the steps of a
  drain-style shutdown; no function of \<^verbatim>\<open>main.cpp\<close> performs them, and they are part of
  the vocabulary only so that a log can be compared with such a shutdown.
\<close>

datatype effect =
    Constructed member
  | Destroyed member
  | IoStop
  | Cerr string
  | StopAccepting
  | BroadcastDrain
  | WaitGrace
  | ForceClose

type_synonym port = nat

text \<open>
  The configuration is a key/value bag. \<^verbatim>\<open>Game::Config::Load("config.xml")\<close> reads it
  from a file; the loaded bag is a parameter of the model.
\<close>

type_synonym config = "string \<rightharpoonup> nat"

record Application =
  mSignalsArmed :: bool
  mSporeNet :: "unit option"
  mGameAPI :: "string option"
  mGameAPISetup :: bool
  mRedirectorServer :: "port option"
  mBlazeServer :: "port option"
  mPssServer :: "port option"
  mTickServer :: "port option"
  mTestServer :: "port option"
  mHttpServer :: "port option"
  mQosServer :: "port option"
  mQosSharesRouter :: bool
  loadedConfig :: "config option"
  log :: "effect list"

text \<open>
  \<^verbatim>\<open>Application::Application()\<close>: the io service, and a signal set on \<^verbatim>\<open>SIGINT\<close> and
  \<^verbatim>\<open>SIGTERM\<close> whose handler is armed. Every smart pointer starts empty.
\<close>

definition new_Application :: Application where
  "new_Application = \<lparr>
     mSignalsArmed = True,
     mSporeNet = None,
     mGameAPI = None,
     mGameAPISetup = False,
     mRedirectorServer = None,
     mBlazeServer = None,
     mPssServer = None,
     mTickServer = None,
     mTestServer = None,
     mHttpServer = None,
     mQosServer = None,
     mQosSharesRouter = False,
     loadedConfig = None,
     log = [] \<rparr>"

text \<open>The handler given to \<^verbatim>\<open>mSignals.async_wait\<close>: \<^verbatim>\<open>mIoService.stop()\<close>, nothing else.\<close>

definition signal_handler :: "Application \<Rightarrow> Application" where
  "signal_handler app = app\<lparr>log := log app @ [IoStop]\<rparr>"

subsection \<open>The singleton\<close>

type_synonym addr = nat

text \<open>
  The static \<^verbatim>\<open>Application::sApplication\<close> (initialised to \<^verbatim>\<open>nullptr\<close>) and the heap
  that \<^verbatim>\<open>new Application\<close> allocates from. \<open>allocations\<close> counts the calls of \<^verbatim>\<open>new\<close>;
  the address handed out is the first one not in use.
\<close>

record process =
  sApplication :: "addr option"
  heap :: "(addr \<times> Application) list"
  allocations :: nat

definition process_start :: process where
  "process_start = \<lparr> sApplication = None, heap = [], allocations = 0 \<rparr>"

definition fresh_addr :: "process \<Rightarrow> addr" where
  "fresh_addr pr = Suc (fold max (map fst (heap pr)) 0)"

definition InitApp :: "int \<Rightarrow> string list \<Rightarrow> process \<Rightarrow> addr \<times> process" where
  "InitApp argc argv pr =
     (case sApplication pr of
        None \<Rightarrow>
          (let a = fresh_addr pr in
             (a, pr\<lparr> sApplication := Some a,
                     heap := (a, new_Application) # heap pr,
                     allocations := Suc (allocations pr) \<rparr>))
      | Some a \<Rightarrow> (a, pr))"

text \<open>
  \<^verbatim>\<open>GetApp\<close> dereferences the static pointer without a check; \<open>None\<close> stands for the
  dereference of \<^verbatim>\<open>nullptr\<close>.
\<close>

definition GetApp :: "process \<Rightarrow> addr option" where
  "GetApp pr = sApplication pr"

text \<open>A client that calls \<^verbatim>\<open>InitApp\<close> once per argument pair, collecting what it returns.\<close>

fun InitApp_calls :: "(int \<times> string list) list \<Rightarrow> process \<Rightarrow> addr list \<times> process" where
  "InitApp_calls [] pr = ([], pr)"
| "InitApp_calls ((argc, argv) # rest) pr =
     (let (a, pr1) = InitApp argc argv pr;
          (as, pr2) = InitApp_calls rest pr1
      in (a # as, pr2))"

subsection \<open>Start-up, the event loop and teardown\<close>

text \<open>\<^verbatim>\<open>unique_ptr::reset()\<close>: destroys the owned object if there is one.\<close>

definition reset_log :: "member \<Rightarrow> 'a option \<Rightarrow> effect list" where
  "reset_log m p = (case p of None \<Rightarrow> [] | Some _ \<Rightarrow> [Destroyed m])"

text \<open>
  Assigning the result of \<^verbatim>\<open>std::make_unique\<close> to a member: the new object is constructed
  first, then the object the member held, if any, is destroyed.
\<close>

definition assign_log :: "member \<Rightarrow> 'a option \<Rightarrow> effect list" where
  "assign_log m p = Constructed m # reset_log m p"

text \<open>
  \<^verbatim>\<open>Application::OnInit\<close>. The configuration is loaded first; every listening port that
  follows is a literal of the source. The function has one \<^verbatim>\<open>return\<close>, \<^verbatim>\<open>return true\<close>.
  The constructors it calls are outside this file and are taken to return normally.
\<close>

definition OnInit :: "config \<Rightarrow> Application \<Rightarrow> bool \<times> Application" where
  "OnInit cfg app =
     (True,
      app\<lparr> loadedConfig := Some cfg,
           mSporeNet := Some (),
           mGameAPI := Some ''5.3.0.127'',
           mRedirectorServer := Some 42127,
           mBlazeServer := Some 10041,
           mPssServer := Some 8443,
           mTickServer := Some 8999,
           mTestServer := Some 3659,
           mHttpServer := Some 80,
           mQosServer := Some 17502,
           mQosSharesRouter := True,
           mGameAPISetup := True,
           log := log app
             @ assign_log SporeNet (mSporeNet app)
             @ assign_log GameAPI (mGameAPI app)
             @ assign_log RedirectorServer (mRedirectorServer app)
             @ assign_log BlazeServer (mBlazeServer app)
             @ assign_log PssServer (mPssServer app)
             @ assign_log TickServer (mTickServer app)
             @ assign_log TestServer (mTestServer app)
             @ assign_log HttpServer (mHttpServer app)
             @ assign_log QosServer (mQosServer app) \<rparr>)"

text \<open>
  \<^verbatim>\<open>Application::OnExit\<close>: six resets in the order of the source, then \<^verbatim>\<open>return 0\<close>.
  \<^verbatim>\<open>mPssServer\<close>, \<^verbatim>\<open>mTickServer\<close> and \<^verbatim>\<open>mTestServer\<close> are not reset.
\<close>

definition OnExit :: "Application \<Rightarrow> int \<times> Application" where
  "OnExit app =
     (0,
      app\<lparr> mGameAPI := None,
           mRedirectorServer := None,
           mBlazeServer := None,
           mHttpServer := None,
           mQosServer := None,
           mSporeNet := None,
           log := log app
             @ reset_log GameAPI (mGameAPI app)
             @ reset_log RedirectorServer (mRedirectorServer app)
             @ reset_log BlazeServer (mBlazeServer app)
             @ reset_log HttpServer (mHttpServer app)
             @ reset_log QosServer (mQosServer app)
             @ reset_log SporeNet (mSporeNet app) \<rparr>)"

text \<open>
  How \<^verbatim>\<open>mIoService.run()\<close> ends: a termination signal arrives and the armed handler stops
  the service; the service runs out of work; a handler throws an exception derived from
  \<^verbatim>\<open>std::exception\<close> (with its \<^verbatim>\<open>what()\<close>); or a handler throws something else.
\<close>

datatype io_outcome = Signalled | OutOfWork | ThrowsStd string | ThrowsOther

text \<open>
  \<^verbatim>\<open>Application::Run\<close>: the \<^verbatim>\<open>try\<close> block catches \<^verbatim>\<open>std::exception&\<close> only and writes
  \<^verbatim>\<open>e.what()\<close> to \<^verbatim>\<open>std::cerr\<close>. \<open>Inl ()\<close> is an exception that leaves \<^verbatim>\<open>Run\<close>.
\<close>

definition Run :: "io_outcome \<Rightarrow> Application \<Rightarrow> unit + Application" where
  "Run io app =
     (case io of
        Signalled \<Rightarrow> Inr (signal_handler app)
      | OutOfWork \<Rightarrow> Inr app
      | ThrowsStd what \<Rightarrow> Inr (app\<lparr>log := log app @ [Cerr what]\<rparr>)
      | ThrowsOther \<Rightarrow> Inl ())"

text \<open>
  How the process ends: \<^verbatim>\<open>main\<close> returns a code, or an exception leaves \<^verbatim>\<open>main\<close> and
  the runtime calls \<^verbatim>\<open>std::terminate\<close>.
\<close>

datatype exit = Returned int | Terminated

definition main_app :: "config \<Rightarrow> io_outcome \<Rightarrow> Application \<Rightarrow> exit \<times> Application" where
  "main_app cfg io app =
     (let (ok, app1) = OnInit cfg app in
        if \<not> ok then (let (rc, app2) = OnExit app1 in (Returned 1, app2))
        else
          (case Run io app1 of
             Inl _ \<Rightarrow> (Terminated, app1)
           | Inr app2 \<Rightarrow> (let (rc, app3) = OnExit app2 in (Returned rc, app3))))"

text \<open>\<^verbatim>\<open>main\<close>: the application is the one \<^verbatim>\<open>InitApp\<close> returns.\<close>

definition lookup_app :: "process \<Rightarrow> addr \<Rightarrow> Application" where
  "lookup_app pr a = (case map_of (heap pr) a of Some app \<Rightarrow> app | None \<Rightarrow> new_Application)"

definition main :: "int \<Rightarrow> string list \<Rightarrow> config \<Rightarrow> io_outcome \<Rightarrow> exit \<times> Application" where
  "main argc argv cfg io =
     (let (a, pr) = InitApp argc argv process_start in main_app cfg io (lookup_app pr a))"

text \<open>A drain-style shutdown, read off a log: the four steps occur, in this order.\<close>

fun occurs_in_order :: "effect list \<Rightarrow> effect list \<Rightarrow> bool" where
  "occurs_in_order [] l = True"
| "occurs_in_order (e # es) [] = False"
| "occurs_in_order (e # es) (x # l) =
     (if e = x then occurs_in_order es l else occurs_in_order (e # es) l)"

definition drains_gracefully :: "effect list \<Rightarrow> bool" where
  "drains_gracefully l = occurs_in_order [StopAccepting, BroadcastDrain, WaitGrace, ForceClose] l"

text \<open>A configuration that asks for other ports than the literals of \<^verbatim>\<open>OnInit\<close>.\<close>

definition cfg_other_ports :: config where
  "cfg_other_ports = [''listen.blaze'' \<mapsto> 10042, ''listen.redirector'' \<mapsto> 42128]"

section \<open>Message structures: \<^verbatim>\<open>blaze/functions.h\<close>\<close>

text \<open>
  Modelled from the spec: the type \<^verbatim>\<open>object_id\<close> is declared in \<^verbatim>\<open>tdf.h\<close>, which is not
  among the sources. The spec describes an object id as an object type (component id and
  type id, 16 bits each) followed by a 64-bit entity id; the initialiser \<^verbatim>\<open>{ 0, 0, 0 }\<close> of
  the source gives its three members in order.
\<close>

record object_id =
  oid_component :: "16 word"
  oid_type :: "16 word"
  oid_entity :: "64 word"

record ClientMessage =
  cm_attributes :: "(32 word \<times> string) list"
  cm_target :: object_id
  cm_flags :: "32 word"
  cm_stat :: "32 word"
  cm_tag :: "32 word"
  cm_type :: "32 word"

text \<open>
  A default-constructed \<^verbatim>\<open>ClientMessage\<close>: the map is empty and every other member takes
  its default member initialiser.
\<close>

definition default_ClientMessage :: ClientMessage where
  "default_ClientMessage = \<lparr>
     cm_attributes = [],
     cm_target = \<lparr> oid_component = 0, oid_type = 0, oid_entity = 0 \<rparr>,
     cm_flags = 0,
     cm_stat = 0,
     cm_tag = 0,
     cm_type = 0 \<rparr>"

section \<open>The tag codec and the integer encoding of the wire protocol\<close>

text \<open>
  The codec (\<^verbatim>\<open>tdf.h\<close> and its implementation) is not among the sources. The definitions
  of this section follow the words of the specification; where it leaves a detail open, the
  text before the definition says which reading was taken.
\<close>

subsection \<open>Tags\<close>

text \<open>
  Modelled from the spec: the errors of the codec (the tag codec and the wire codec are
  missing). \<open>Malformed\<close> carries the byte offset it identifies.
\<close>

datatype codec_error = MalformedTag | Malformed nat

text \<open>
  Modelled from the spec: a label (the tag codec is missing). "Labels are exactly four
  characters", so a label is four characters and nothing else.
\<close>

datatype label = Label char char char char

fun label_chars :: "label \<Rightarrow> char list" where
  "label_chars (Label a b c d) = [a, b, c, d]"

text \<open>
  Modelled from the spec: the alphabet \<^verbatim>\<open>[A-Z0-9_ ]\<close> of labels (the tag codec is
  missing), in the order the spec writes it; the index of a character is its position.
\<close>

definition alphabet :: "char list" where
  "alphabet = ''ABCDEFGHIJKLMNOPQRSTUVWXYZ0123456789_ ''"

text \<open>
  Modelled from the spec: the "canonical filler character" of \<^verbatim>\<open>unpack\<close> (the tag codec
  is missing). The spec does not name the character; a question mark is taken here.
\<close>

definition filler :: char where
  "filler = CHR ''?''"

fun index_of :: "char \<Rightarrow> char list \<Rightarrow> nat option" where
  "index_of c [] = None"
| "index_of c (x # xs) = (if c = x then Some 0 else map_option Suc (index_of c xs))"

definition char_index :: "char \<Rightarrow> 32 word option" where
  "char_index c = map_option of_nat (index_of c alphabet)"

definition index_char :: "32 word \<Rightarrow> char" where
  "index_char i = (if unat i < length alphabet then alphabet ! unat i else filler)"

text \<open>
  Modelled from the spec: \<^verbatim>\<open>pack\<close> (the tag codec is missing). "The packing spreads the 4
  character indices across 32 bits in a fixed pattern (three characters occupy ~6 bits
  each, the fourth occupies the remaining bits together with a reserved nibble)": the
  first three indices take bits 31-26, 25-20 and 19-14, the fourth takes bits 13-4, and
  bits 3-0 are the reserved nibble, which \<^verbatim>\<open>pack\<close> leaves 0. "Fails with
  \<^verbatim>\<open>MalformedTag\<close> [...] when a non-alphabet character is supplied."
\<close>

definition pack :: "label \<Rightarrow> codec_error + 32 word" where
  "pack l =
     (case l of Label a b c d \<Rightarrow>
        (case (char_index a, char_index b, char_index c, char_index d) of
           (Some i, Some j, Some k, Some m) \<Rightarrow>
             Inr (push_bit 26 i OR push_bit 20 j OR push_bit 14 k OR push_bit 4 m)
         | _ \<Rightarrow> Inl MalformedTag))"

text \<open>
  Modelled from the spec: \<^verbatim>\<open>unpack\<close> (the tag codec is missing). It reads the four
  fields back; "non-alphabet bits decode to a canonical filler character". The reserved
  nibble is not read.
\<close>

definition unpack :: "32 word \<Rightarrow> label" where
  "unpack t =
     Label (index_char (take_bit 6 (drop_bit 26 t)))
           (index_char (take_bit 6 (drop_bit 20 t)))
           (index_char (take_bit 6 (drop_bit 14 t)))
           (index_char (take_bit 10 (drop_bit 4 t)))"

text \<open>
  Modelled from the spec: the four index fields of a tag, in the order of the characters
  (the tag codec is missing); the bit positions are those of \<^verbatim>\<open>pack\<close>. A field holds
  "non-alphabet bits" when its value is not the index of a character of the alphabet.
\<close>

definition tag_indices :: "32 word \<Rightarrow> 32 word list" where
  "tag_indices t =
     [take_bit 6 (drop_bit 26 t), take_bit 6 (drop_bit 20 t), take_bit 6 (drop_bit 14 t),
      take_bit 10 (drop_bit 4 t)]"

subsection \<open>Integers on the wire\<close>

type_synonym byte = "8 word"

text \<open>
  Modelled from the spec: the zig-zag mapping of a signed 64-bit integer (the wire codec
  is missing). "Sign handled by zig-zag": the sign moves to bit 0, so that integers of
  small magnitude become small unsigned values.
\<close>

definition zigzag :: "64 word \<Rightarrow> 64 word" where
  "zigzag n = push_bit 1 n XOR signed_drop_bit 63 n"

definition unzigzag :: "64 word \<Rightarrow> 64 word" where
  "unzigzag u = drop_bit 1 u XOR - (u AND 1)"

text \<open>
  Modelled from the spec: the variable-length encoding of an unsigned 64-bit value (the
  wire codec is missing). "7 data bits per byte, MSB = continuation", least significant
  group first ("all integers little-endian unless noted"); "smallest width that fits
  must be chosen on encode", so the encoder stops at the first group after which nothing
  is left.
\<close>

function encode_varint :: "64 word \<Rightarrow> byte list" where
  "encode_varint u =
     (if u < 128 then [ucast u]
      else (ucast (u AND 127) OR 128) # encode_varint (drop_bit 7 u))"
  by pat_completeness auto
termination
proof (relation "measure unat")
  show "wf (measure unat)" by simp
next
  fix u :: "64 word"
  assume "\<not> u < 128"
  then have "128 \<le> unat u" by (simp add: word_less_nat_alt not_less)
  then have "unat u div 128 < unat u" by simp
  then show "(drop_bit 7 u, u) \<in> measure unat"
    by (simp add: drop_bit_eq_div unat_div)
qed

text \<open>
  Modelled from the spec: the decoder of the variable-length encoding (the wire codec is
  missing). \<open>k\<close> counts the bytes of this integer read so far, \<open>acc\<close> holds their data
  bits, \<open>pos\<close> is the offset of the next byte. "Decode accepts any width up to 10 bytes";
  "truncated input, overlong integers (more than 10 bytes) [...] fail with \<^verbatim>\<open>Malformed\<close>
  and identify the byte offset". A result is the value, the offset after it and the
  input left.
\<close>

fun decode_varint_from ::
  "nat \<Rightarrow> 64 word \<Rightarrow> nat \<Rightarrow> byte list \<Rightarrow> codec_error + (64 word \<times> nat \<times> byte list)" where
  "decode_varint_from k acc pos [] = Inl (Malformed pos)"
| "decode_varint_from k acc pos (b # bs) =
     (if 10 \<le> k then Inl (Malformed pos)
      else
        (let acc' = acc OR push_bit (7 * k) (ucast (b AND 127)) in
           if b AND 128 = 0 then Inr (acc', Suc pos, bs)
           else decode_varint_from (Suc k) acc' (Suc pos) bs))"

definition decode_varint :: "nat \<Rightarrow> byte list \<Rightarrow> codec_error + (64 word \<times> nat \<times> byte list)" where
  "decode_varint pos bs = decode_varint_from 0 0 pos bs"

text \<open>
  Modelled from the spec: the wire form of the Integer kind (the wire codec is missing):
  the variable-length encoding of the zig-zagged value.
\<close>

definition encode_int :: "64 word \<Rightarrow> byte list" where
  "encode_int n = encode_varint (zigzag n)"

definition decode_int :: "nat \<Rightarrow> byte list \<Rightarrow> codec_error + (64 word \<times> nat \<times> byte list)" where
  "decode_int pos bs =
     (case decode_varint pos bs of
        Inl e \<Rightarrow> Inl e
      | Inr (u, pos', rest) \<Rightarrow> Inr (unzigzag u, pos', rest))"

text \<open>
  The shape of one variable-length integer, whatever its width: every byte but the last
  has the continuation bit, the last has not. \<open>varint_value\<close> is the value its data
  bits spell.
\<close>

fun is_varint :: "byte list \<Rightarrow> bool" where
  "is_varint [] = False"
| "is_varint [b] = (b AND 128 = 0)"
| "is_varint (b # c # bs) = (b AND 128 \<noteq> 0 \<and> is_varint (c # bs))"

fun varint_value :: "byte list \<Rightarrow> 64 word" where
  "varint_value [] = 0"
| "varint_value (b # bs) = ucast (b AND 127) OR push_bit 7 (varint_value bs)"

section \<open>Frames and the dispatcher\<close>

text \<open>
  The dispatcher is not among the sources either; this section follows sections 3, 4.5
  and 4.6 of the specification.
\<close>

text \<open>
  Modelled from the spec: the kinds and the value tree of the data model (the TDF value
  tree is missing). A tag is its packed 32-bit form; a float is its IEEE-754 bit pattern.
\<close>

datatype tdf_kind = KInteger | KString | KBlob | KStruct | KList | KMap | KUnion
  | KObjectType | KObjectId | KFloat | KTriple | KVector3

datatype tdf_value =
    VInteger "64 word"
  | VString "byte list"
  | VBlob "byte list"
  | VStruct "(32 word \<times> tdf_value) list"
  | VList tdf_kind "tdf_value list"
  | VMap tdf_kind tdf_kind "(tdf_value \<times> tdf_value) list"
  | VUnion "(32 word \<times> tdf_value) option"
  | VObjectType "16 word" "16 word"
  | VObjectId "16 word" "16 word" "64 word"
  | VFloat "32 word"
  | VTriple "32 word" "32 word" "32 word"
  | VVector3 "32 word" "32 word" "32 word"

type_synonym tdf_struct = "(32 word \<times> tdf_value) list"

text \<open>
  Modelled from the spec: the message kinds and the error codes of a frame (the frame
  codec and the dispatcher are missing). The spec names the dispatch errors but gives
  them no numbers, so a code is a name; \<open>HandlerCode\<close> is a code a handler returned.
\<close>

datatype msg_kind = Request | Response | Notification | Error | Ping | Pong

datatype error_code = NoError | CommandNotFound | HandlerAlreadyRegistered
  | UnsupportedComponent | HandlerCode "16 word"

text \<open>
  Modelled from the spec: a frame as the dispatcher handles it (the frame codec is
  missing). The header's length field is "patched after serializing the payload", so it
  is not a field here.
\<close>

record frame =
  f_component :: "16 word"
  f_command :: "16 word"
  f_error :: error_code
  f_kind :: msg_kind
  f_flags :: "8 word"
  f_msgId :: "32 word"
  f_payload :: tdf_struct

text \<open>
  Modelled from the spec: the part of a session the dispatcher reads or writes (the
  session is missing): its connection handle, its ordered outbound queue, its subscribed
  components and its close state.
\<close>

datatype close_state = Open | Draining | Closed

record session =
  s_handle :: nat
  s_outbound :: "frame list"
  s_subscribed :: "16 word list"
  s_close :: close_state

text \<open>
  Modelled from the spec: what a handler returns (the handler interface is missing): "a
  response struct", "an error code + optional error struct", or a deferred completion;
  with it, "zero or more notification frames for the same or other sessions", each with
  the handle of the session it is for.
\<close>

datatype handler_result =
    ResponseResult tdf_struct
  | ErrorCodeResult "16 word" "tdf_struct option"
  | DeferredResult

type_synonym handler = "session \<Rightarrow> tdf_struct \<Rightarrow> handler_result \<times> (nat \<times> frame) list"

type_synonym registry = "(16 word \<times> 16 word) \<rightharpoonup> handler"

text \<open>
  Modelled from the spec: the frame that answers a request (the dispatcher is missing).
  It bears the "same message id"; component and command are taken from the request, the
  flags are 0.
\<close>

definition reply :: "frame \<Rightarrow> msg_kind \<Rightarrow> error_code \<Rightarrow> tdf_struct \<Rightarrow> frame" where
  "reply req k e p = \<lparr>
     f_component = f_component req,
     f_command = f_command req,
     f_error = e,
     f_kind = k,
     f_flags = 0,
     f_msgId = f_msgId req,
     f_payload = p \<rparr>"

definition enqueue :: "session \<Rightarrow> frame list \<Rightarrow> session" where
  "enqueue s fs = s\<lparr>s_outbound := s_outbound s @ fs\<rparr>"

text \<open>
  Modelled from the spec: the dispatch of one inbound request (the dispatcher is
  missing), section 4.6: "1. Look up handler by (component, command). 2. If missing, emit
  an Error frame with code \<^verbatim>\<open>CommandNotFound\<close>, same message id, kind = Error. 3.
  Otherwise invoke the handler with (session, decoded struct)": a response struct
  "becomes a Response frame with error=0", an error code with its optional struct
  "becomes an Error frame". The result is the session and the notifications to fan out.
\<close>

definition dispatch_request :: "registry \<Rightarrow> session \<Rightarrow> frame \<Rightarrow> session \<times> (nat \<times> frame) list" where
  "dispatch_request reg s f =
     (case reg (f_component f, f_command f) of
        None \<Rightarrow> (enqueue s [reply f Error CommandNotFound []], [])
      | Some h \<Rightarrow>
          (case h s (f_payload f) of
             (ResponseResult r, notes) \<Rightarrow> (enqueue s [reply f Response NoError r], notes)
           | (ErrorCodeResult c p, notes) \<Rightarrow>
               (enqueue s [reply f Error (HandlerCode c) (case p of None \<Rightarrow> [] | Some e \<Rightarrow> e)],
                notes)
           | (DeferredResult, notes) \<Rightarrow> (s, notes)))"

text \<open>
  Modelled from the spec: the dispatcher's entry (the dispatcher is missing). It routes
  "each inbound Request"; a frame of another kind is the session's business (section
  4.5) and is not dispatched: \<open>None\<close>.
\<close>

definition dispatch :: "registry \<Rightarrow> session \<Rightarrow> frame \<Rightarrow> (session \<times> (nat \<times> frame) list) option" where
  "dispatch reg s f = (if f_kind f = Request then Some (dispatch_request reg s f) else None)"

text \<open>A registry with one handler, a session and a request for scenario S3 of the spec.\<close>

definition echo_handler :: handler where
  "echo_handler s p = (ResponseResult p, [])"

definition registry_9_1 :: registry where
  "registry_9_1 = [(9, 1) \<mapsto> echo_handler]"

definition session_7 :: session where
  "session_7 = \<lparr> s_handle = 7, s_outbound = [], s_subscribed = [], s_close = Open \<rparr>"

definition request_999_1 :: frame where
  "request_999_1 = \<lparr> f_component = 999, f_command = 1, f_error = NoError, f_kind = Request,
     f_flags = 0, f_msgId = 42, f_payload = [] \<rparr>"

section \<open>Properties of the process shell\<close>

lemma InitApp_Some: "sApplication pr = Some a \<Longrightarrow> InitApp argc argv pr = (a, pr)"
  by (simp add: InitApp_def)

lemma InitApp_calls_Some:
  "sApplication pr = Some a \<Longrightarrow> InitApp_calls args pr = (replicate (length args) a, pr)"
  by (induction args) (auto simp: InitApp_Some)

lemma fold_max_ge: "(x::nat) \<in> set xs \<Longrightarrow> x \<le> fold max xs m"
proof (induction xs arbitrary: m)
  case Nil
  then show ?case by simp
next
  case (Cons y ys)
  have mono: "m \<le> fold max ys m" for m :: nat
    by (induction ys arbitrary: m) (auto intro: order_trans [OF max.cobounded2])
  from Cons show ?case
    by (auto intro: order_trans [OF max.cobounded1 mono])
qed

lemma fresh_addr_fresh: "fresh_addr pr \<notin> fst ` set (heap pr)"
proof
  assume "fresh_addr pr \<in> fst ` set (heap pr)"
  then have "fresh_addr pr \<in> set (map fst (heap pr))" by simp
  then have "fresh_addr pr \<le> fold max (map fst (heap pr)) 0" by (rule fold_max_ge)
  then show False by (simp add: fresh_addr_def)
qed

lemma main_unfold:
  "main argc argv cfg io = main_app cfg io new_Application"
  by (simp add: main_def InitApp_def process_start_def lookup_app_def fresh_addr_def)

lemma main_app_log:
  "main_app cfg io new_Application =
     (case io of
        ThrowsOther \<Rightarrow> (Terminated, snd (OnInit cfg new_Application))
      | _ \<Rightarrow> (Returned 0, snd (OnExit (projr (Run io (snd (OnInit cfg new_Application)))))))"
  by (cases io) (simp_all add: main_app_def OnInit_def Run_def OnExit_def signal_handler_def)

text \<open>
  C9. \<^verbatim>\<open>Application::InitApp\<close> is idempotent. Starting from a process whose static pointer
  is still null, the first call allocates exactly one \<^verbatim>\<open>Application\<close> at an address that
  was not in use and stores it in the static pointer; every later call, whatever its
  arguments, returns that same address and leaves the process (heap and allocation count
  included) as it was; and \<^verbatim>\<open>GetApp\<close> returns that address.
\<close>

theorem InitApp_idempotent:
  assumes "sApplication pr = None" and "InitApp argc argv pr = (a, pr1)"
  shows "sApplication pr1 = Some a
       \<and> allocations pr1 = Suc (allocations pr)
       \<and> a \<notin> fst ` set (heap pr)
       \<and> map_of (heap pr1) a = Some new_Application
       \<and> InitApp_calls args pr1 = (replicate (length args) a, pr1)
       \<and> allocations (snd (InitApp_calls args pr1)) = Suc (allocations pr)
       \<and> GetApp pr1 = Some a"
proof -
  from assms have a: "a = fresh_addr pr"
    and pr1: "pr1 = pr\<lparr> sApplication := Some a, heap := (a, new_Application) # heap pr,
                        allocations := Suc (allocations pr) \<rparr>"
    by (auto simp: InitApp_def Let_def)
  have s: "sApplication pr1 = Some a" by (simp add: pr1)
  have calls: "InitApp_calls args pr1 = (replicate (length args) a, pr1)"
    using s by (rule InitApp_calls_Some)
  have fresh: "a \<notin> fst ` set (heap pr)"
    unfolding a by (rule fresh_addr_fresh)
  show ?thesis
    using s calls fresh by (simp add: GetApp_def) (simp add: pr1)
qed

theorem InitApp_idempotent_witness:
  "sApplication process_start = None
   \<and> fst (InitApp 1 [''server''] process_start) = 1
   \<and> InitApp_calls [(2, [''a'', ''b'']), (0, [])] (snd (InitApp 1 [''server''] process_start))
       = ([1, 1], snd (InitApp 1 [''server''] process_start))
   \<and> allocations (snd (InitApp 1 [''server''] process_start)) = 1
   \<and> GetApp (snd (InitApp 1 [''server''] process_start)) = Some 1"
proof -
  have n: "sApplication process_start = None"
    by (simp add: process_start_def)
  have e: "InitApp 1 [''server''] process_start
         = (1, process_start\<lparr> sApplication := Some 1, heap := [(1, new_Application)],
                              allocations := 1 \<rparr>)"
    by (simp add: InitApp_def process_start_def fresh_addr_def)
  show ?thesis
    using InitApp_idempotent [OF n e, of "[(2, [''a'', ''b'']), (0, [])]"] n
    by (simp add: e)
qed

text \<open>
  C10. A default-constructed \<^verbatim>\<open>Blaze::ClientMessage\<close> has the target \<open>(0, 0, 0)\<close> and its
  flags, stat, tag and type are all 0; a message on which only the attributes were set
  still carries those values.
\<close>

theorem default_ClientMessage_zero:
  "cm_target default_ClientMessage = \<lparr> oid_component = 0, oid_type = 0, oid_entity = 0 \<rparr>
   \<and> cm_flags default_ClientMessage = 0
   \<and> cm_stat default_ClientMessage = 0
   \<and> cm_tag default_ClientMessage = 0
   \<and> cm_type default_ClientMessage = 0
   \<and> cm_attributes default_ClientMessage = []
   \<and> cm_target (default_ClientMessage\<lparr>cm_attributes := attrs\<rparr>)
       = \<lparr> oid_component = 0, oid_type = 0, oid_entity = 0 \<rparr>
   \<and> cm_flags (default_ClientMessage\<lparr>cm_attributes := attrs\<rparr>) = 0
   \<and> cm_stat (default_ClientMessage\<lparr>cm_attributes := attrs\<rparr>) = 0
   \<and> cm_tag (default_ClientMessage\<lparr>cm_attributes := attrs\<rparr>) = 0
   \<and> cm_type (default_ClientMessage\<lparr>cm_attributes := attrs\<rparr>) = 0"
  by (simp add: default_ClientMessage_def)

text \<open>
  C1, as stated: the main Blaze endpoint listens on the port the configuration gives under
  \<^verbatim>\<open>listen.blaze\<close>, the redirector on the one under \<^verbatim>\<open>listen.redirector\<close>. It fails for a
  configuration that names the ports 10042 and 42128: the servers are constructed on 10041
  and 42127.
\<close>

theorem OnInit_ports_counterexample:
  "cfg_other_ports ''listen.blaze'' = Some 10042
   \<and> mBlazeServer (snd (OnInit cfg_other_ports new_Application)) \<noteq> Some 10042
   \<and> cfg_other_ports ''listen.redirector'' = Some 42128
   \<and> mRedirectorServer (snd (OnInit cfg_other_ports new_Application)) \<noteq> Some 42128"
  by (simp add: cfg_other_ports_def OnInit_def)

text \<open>
  C1, amended: \<^verbatim>\<open>OnInit\<close> loads the configuration and then, whatever it holds, constructs
  the main Blaze server on port 10041 and the redirector on port 42127, and succeeds.
\<close>

theorem OnInit_ports_fixed:
  "fst (OnInit cfg app)
   \<and> loadedConfig (snd (OnInit cfg app)) = Some cfg
   \<and> mBlazeServer (snd (OnInit cfg app)) = Some 10041
   \<and> mRedirectorServer (snd (OnInit cfg app)) = Some 42127"
  by (simp add: OnInit_def)

text \<open>
  C4, as stated: on shutdown the server stops accepting, broadcasts a Drain notification,
  waits for the grace period and then force-closes what is left, rather than tearing
  everything down at once. It fails for the run that a termination signal ends: its log
  holds no such sequence, and no Drain broadcast or grace wait at all.
\<close>

theorem shutdown_counterexample:
  "\<not> drains_gracefully (log (snd (main 1 [''server''] Map.empty Signalled)))
   \<and> BroadcastDrain \<notin> set (log (snd (main 1 [''server''] Map.empty Signalled)))
   \<and> WaitGrace \<notin> set (log (snd (main 1 [''server''] Map.empty Signalled)))"
  unfolding main_unfold main_app_log
  by (simp add: OnInit_def Run_def OnExit_def signal_handler_def
      new_Application_def assign_log_def reset_log_def drains_gracefully_def)

text \<open>
  C4, amended: when a termination signal arrives, the handler stops the io service at once;
  \<^verbatim>\<open>Run\<close> returns, and \<^verbatim>\<open>OnExit\<close> destroys the game API, the redirector server, the Blaze
  server, the HTTP server, the QoS HTTP server and the SporeNet instance, in this order,
  with nothing in between; \<^verbatim>\<open>main\<close> returns 0.
\<close>

theorem shutdown_immediate:
  "fst (main argc argv cfg Signalled) = Returned 0
   \<and> log (snd (main argc argv cfg Signalled)) =
       map Constructed [SporeNet, GameAPI, RedirectorServer, BlazeServer, PssServer,
                        TickServer, TestServer, HttpServer, QosServer]
       @ [IoStop]
       @ map Destroyed [GameAPI, RedirectorServer, BlazeServer, HttpServer, QosServer,
                        SporeNet]"
  unfolding main_unfold main_app_log
  by (simp add: OnInit_def Run_def OnExit_def signal_handler_def
      new_Application_def assign_log_def reset_log_def)

text \<open>
  C5. Whenever an exception derived from \<^verbatim>\<open>std::exception\<close> leaves the event loop, the
  process catches it, writes its message to \<^verbatim>\<open>std::cerr\<close>, then tears down in the usual
  order and \<^verbatim>\<open>main\<close> returns 0: the process does not terminate abnormally.
\<close>

theorem std_exception_survived:
  "fst (main argc argv cfg (ThrowsStd what)) = Returned 0
   \<and> fst (main argc argv cfg (ThrowsStd what)) \<noteq> Terminated
   \<and> log (snd (main argc argv cfg (ThrowsStd what))) =
       map Constructed [SporeNet, GameAPI, RedirectorServer, BlazeServer, PssServer,
                        TickServer, TestServer, HttpServer, QosServer]
       @ [Cerr what]
       @ map Destroyed [GameAPI, RedirectorServer, BlazeServer, HttpServer, QosServer,
                        SporeNet]
   \<and> mBlazeServer (snd (main argc argv cfg (ThrowsStd what))) = None
   \<and> mRedirectorServer (snd (main argc argv cfg (ThrowsStd what))) = None"
  unfolding main_unfold main_app_log
  by (simp add: OnInit_def Run_def OnExit_def
      new_Application_def assign_log_def reset_log_def)

section \<open>Properties of the tag codec\<close>

lemma index_of_lt: "index_of c xs = Some n \<Longrightarrow> n < length xs \<and> xs ! n = c"
  by (induction xs arbitrary: n) (auto split: if_splits)

lemma index_of_None: "index_of c xs = None \<longleftrightarrow> c \<notin> set xs"
  by (induction xs) auto

lemma char_index_None: "char_index c = None \<longleftrightarrow> c \<notin> set alphabet"
  by (simp add: char_index_def index_of_None)

lemma char_index_Some:
  assumes "c \<in> set alphabet"
  obtains i where "char_index c = Some i" and "i < 2 ^ 6" and "i < 2 ^ 10"
    and "index_char i = c"
proof -
  from assms obtain n where n: "index_of c alphabet = Some n"
    by (cases "index_of c alphabet") (simp_all add: index_of_None)
  then have lt: "n < length alphabet" and nth: "alphabet ! n = c"
    by (simp_all add: index_of_lt)
  have len: "length alphabet = 38" by (simp add: alphabet_def)
  have un: "unat (of_nat n :: 32 word) = n"
    using lt len by (simp add: unat_of_nat)
  have "char_index c = Some (of_nat n)" by (simp add: char_index_def n)
  moreover have "(of_nat n :: 32 word) < 2 ^ 6" "(of_nat n :: 32 word) < 2 ^ 10"
    using lt len un by (simp_all add: word_less_nat_alt)
  moreover have "index_char (of_nat n) = c"
    using lt nth un by (simp add: index_char_def)
  ultimately show thesis by (rule that)
qed

lemma small_bits:
  fixes i :: "32 word"
  assumes "i < 2 ^ n"
  shows "bit i k \<Longrightarrow> k < n"
proof -
  have "take_bit n i = i" using less_mask_eq [OF assms] by (simp add: take_bit_eq_mask)
  then have "bit i k \<longleftrightarrow> k < n \<and> bit i k" by (metis bit_take_bit_iff)
  then show "bit i k \<Longrightarrow> k < n" by auto
qed

lemma tag_fields:
  fixes i j k m :: "32 word"
  assumes "i < 2 ^ 6" "j < 2 ^ 6" "k < 2 ^ 6" "m < 2 ^ 10"
  defines "t \<equiv> push_bit 26 i OR push_bit 20 j OR push_bit 14 k OR push_bit 4 m"
  shows "take_bit 6 (drop_bit 26 t) = i" "take_bit 6 (drop_bit 20 t) = j"
    "take_bit 6 (drop_bit 14 t) = k" "take_bit 10 (drop_bit 4 t) = m"
proof -
  note sb = small_bits [OF assms(1)] small_bits [OF assms(2)] small_bits [OF assms(3)]
    small_bits [OF assms(4)]
  show "take_bit 6 (drop_bit 26 t) = i"
    unfolding t_def by (rule bit_eqI) (auto simp: bit_simps dest: sb)
  show "take_bit 6 (drop_bit 20 t) = j"
    unfolding t_def by (rule bit_eqI) (auto simp: bit_simps dest: sb)
  show "take_bit 6 (drop_bit 14 t) = k"
    unfolding t_def by (rule bit_eqI) (auto simp: bit_simps dest: sb)
  show "take_bit 10 (drop_bit 4 t) = m"
    unfolding t_def by (rule bit_eqI) (auto simp: bit_simps dest: sb)
qed

lemma index_char_range: "index_char i \<in> set alphabet \<or> index_char i = filler"
  by (simp add: index_char_def)

lemma pack_cases:
  "pack (Label a b c d) =
     (if a \<in> set alphabet \<and> b \<in> set alphabet \<and> c \<in> set alphabet \<and> d \<in> set alphabet
      then Inr (push_bit 26 (the (char_index a)) OR push_bit 20 (the (char_index b))
                OR push_bit 14 (the (char_index c)) OR push_bit 4 (the (char_index d)))
      else Inl MalformedTag)"
  by (cases "char_index a"; cases "char_index b"; cases "char_index c"; cases "char_index d")
     (simp_all add: pack_def flip: char_index_None)

text \<open>
  C3. For every label of four characters from the alphabet \<^verbatim>\<open>[A-Z0-9_ ]\<close>, \<^verbatim>\<open>pack\<close>
  succeeds and \<^verbatim>\<open>unpack\<close> of the tag it returns is the label again.
\<close>

theorem unpack_pack:
  assumes "a \<in> set alphabet" "b \<in> set alphabet" "c \<in> set alphabet" "d \<in> set alphabet"
  shows "\<exists>t. pack (Label a b c d) = Inr t \<and> unpack t = Label a b c d"
proof -
  from assms(1) obtain i where i: "char_index a = Some i" "i < 2 ^ 6" "index_char i = a"
    by (rule char_index_Some)
  from assms(2) obtain j where j: "char_index b = Some j" "j < 2 ^ 6" "index_char j = b"
    by (rule char_index_Some)
  from assms(3) obtain k where k: "char_index c = Some k" "k < 2 ^ 6" "index_char k = c"
    by (rule char_index_Some)
  from assms(4) obtain m where m: "char_index d = Some m" "m < 2 ^ 10" "index_char m = d"
    by (rule char_index_Some)
  let ?t = "push_bit 26 i OR push_bit 20 j OR push_bit 14 k OR push_bit 4 m"
  have "pack (Label a b c d) = Inr ?t"
    by (simp add: pack_def i j k m)
  moreover have "unpack ?t = Label a b c d"
    unfolding unpack_def
    by (simp only: tag_fields [OF i(2) j(2) k(2) m(2)] i(3) j(3) k(3) m(3))
  ultimately show ?thesis by blast
qed

theorem unpack_pack_witness:
  "CHR ''P'' \<in> set alphabet \<and> CHR ''N'' \<in> set alphabet \<and> CHR ''A'' \<in> set alphabet
   \<and> CHR ''_'' \<in> set alphabet
   \<and> pack (Label CHR ''P'' CHR ''N'' CHR ''A'' CHR ''_'') = Inr 1020265024
   \<and> unpack 1020265024 = Label CHR ''P'' CHR ''N'' CHR ''A'' CHR ''_''"
proof -
  have mem: "CHR ''P'' \<in> set alphabet" "CHR ''N'' \<in> set alphabet"
    "CHR ''A'' \<in> set alphabet" "CHR ''_'' \<in> set alphabet"
    by (simp_all add: alphabet_def)
  have p: "pack (Label CHR ''P'' CHR ''N'' CHR ''A'' CHR ''_'') = Inr 1020265024"
    by (simp add: pack_def char_index_def alphabet_def)
  from unpack_pack [OF mem] p
  have "unpack 1020265024 = Label CHR ''P'' CHR ''N'' CHR ''A'' CHR ''_''"
    by simp
  with mem p show ?thesis by simp
qed

lemma filler_not_in_alphabet: "filler \<notin> set alphabet"
  by (simp add: filler_def alphabet_def)

lemma index_char_filler_iff: "(index_char i = filler) = (length alphabet \<le> unat i)"
proof (cases "unat i < length alphabet")
  case True
  then have "alphabet ! unat i \<in> set alphabet" by (rule nth_mem)
  then have "alphabet ! unat i \<noteq> filler" using filler_not_in_alphabet by metis
  then show ?thesis using True by (simp add: index_char_def)
next
  case False
  then show ?thesis by (simp add: index_char_def)
qed

lemma index_char_alphabet_iff: "(index_char i \<in> set alphabet) = (unat i < length alphabet)"
  using filler_not_in_alphabet by (auto simp: index_char_def)

text \<open>
  C7. \<^verbatim>\<open>unpack\<close> has a result for every 32-bit value, whatever the bits are: each of its
  four characters is the alphabet character whose index its field holds, and the filler
  when the field holds no index of the alphabet. So a character of the result is the
  filler exactly when its field holds non-alphabet bits, and a character of the alphabet
  exactly when it does not; the filler is no character of the alphabet, and the reserved
  nibble has no influence. \<^verbatim>\<open>pack\<close> fails exactly when one of the four characters it is
  given is outside the alphabet, its only failure is \<^verbatim>\<open>MalformedTag\<close>, and otherwise it
  returns a tag.
\<close>

theorem tag_codec_errors:
  "list_all (\<lambda>c. c \<in> set alphabet \<or> c = filler) (label_chars (unpack t))
   \<and> list_all2 (\<lambda>c i. c = (if unat i < length alphabet then alphabet ! unat i else filler))
        (label_chars (unpack t)) (tag_indices t)
   \<and> list_all2 (\<lambda>c i. (c = filler) = (length alphabet \<le> unat i))
        (label_chars (unpack t)) (tag_indices t)
   \<and> list_all2 (\<lambda>c i. (c \<in> set alphabet) = (unat i < length alphabet))
        (label_chars (unpack t)) (tag_indices t)
   \<and> filler \<notin> set alphabet
   \<and> length alphabet = 38
   \<and> unpack (t OR take_bit 4 r) = unpack t
   \<and> (pack l = Inl MalformedTag) = (\<not> list_all (\<lambda>c. c \<in> set alphabet) (label_chars l))
   \<and> (\<exists>t'. pack l = Inr t') = list_all (\<lambda>c. c \<in> set alphabet) (label_chars l)
   \<and> (\<forall>e. (pack l = Inl e) = (e = MalformedTag \<and> \<not> list_all (\<lambda>c. c \<in> set alphabet) (label_chars l)))"
proof -
  have 1: "list_all (\<lambda>c. c \<in> set alphabet \<or> c = filler) (label_chars (unpack t))"
    by (simp add: unpack_def index_char_range)
  have u1: "list_all2 (\<lambda>c i. c = (if unat i < length alphabet then alphabet ! unat i else filler))
      (label_chars (unpack t)) (tag_indices t)"
    by (simp add: unpack_def tag_indices_def index_char_def)
  have u2: "list_all2 (\<lambda>c i. (c = filler) = (length alphabet \<le> unat i))
      (label_chars (unpack t)) (tag_indices t)"
    by (simp add: unpack_def tag_indices_def index_char_filler_iff)
  have u3: "list_all2 (\<lambda>c i. (c \<in> set alphabet) = (unat i < length alphabet))
      (label_chars (unpack t)) (tag_indices t)"
    by (simp add: unpack_def tag_indices_def index_char_alphabet_iff)
  have len: "length alphabet = 38" by (simp add: alphabet_def)
  have d: "drop_bit n (t OR take_bit 4 r) = drop_bit n t" if "4 \<le> n" for n
    by (rule bit_eqI) (use that in \<open>auto simp add: bit_simps\<close>)
  have "drop_bit 26 (t OR take_bit 4 r) = drop_bit 26 t"
    and "drop_bit 20 (t OR take_bit 4 r) = drop_bit 20 t"
    and "drop_bit 14 (t OR take_bit 4 r) = drop_bit 14 t"
    and "drop_bit 4 (t OR take_bit 4 r) = drop_bit 4 t"
    by (rule d, simp)+
  then have 2: "unpack (t OR take_bit 4 r) = unpack t"
    by (simp only: unpack_def)
  obtain a b c d where l: "l = Label a b c d" by (cases l)
  have 3: "(pack l = Inl MalformedTag) = (\<not> list_all (\<lambda>c. c \<in> set alphabet) (label_chars l))"
    by (simp add: l pack_cases)
  have 4: "(\<exists>t'. pack l = Inr t') = list_all (\<lambda>c. c \<in> set alphabet) (label_chars l)"
    by (simp add: l pack_cases)
  have 5: "(pack l = Inl e) = (e = MalformedTag \<and> \<not> list_all (\<lambda>c. c \<in> set alphabet) (label_chars l))" for e
    by (auto simp add: l pack_cases)
  from 1 u1 u2 u3 filler_not_in_alphabet len 2 3 4 5 show ?thesis by blast
qed

theorem tag_codec_errors_witness:
  "tag_indices 4294967295 = [63, 63, 63, 1023]
   \<and> unpack 4294967295 = Label filler filler filler filler
   \<and> tag_indices 2550136832 = [38, 0, 0, 0]
   \<and> unpack 2550136832 = Label filler CHR ''A'' CHR ''A'' CHR ''A''
   \<and> tag_indices 2483027968 = [37, 0, 0, 0]
   \<and> unpack 2483027968 = Label CHR '' '' CHR ''A'' CHR ''A'' CHR ''A''
   \<and> pack (Label CHR ''a'' CHR ''B'' CHR ''C'' CHR ''D'') = Inl MalformedTag"
proof -
  have i1: "tag_indices 4294967295 = [63, 63, 63, 1023]"
    and i2: "tag_indices 2550136832 = [38, 0, 0, 0]"
    and i3: "tag_indices 2483027968 = [37, 0, 0, 0]"
    by (simp_all add: tag_indices_def)
  have al: "length alphabet = 38" "alphabet ! 37 = CHR '' ''" "alphabet ! 0 = CHR ''A''"
    by (simp_all add: alphabet_def)
  obtain a b c d where u1: "unpack 4294967295 = Label a b c d"
    by (cases "unpack 4294967295")
  with tag_codec_errors [of 4294967295] i1 al
  have r1: "unpack 4294967295 = Label filler filler filler filler" by simp
  obtain a b c d where u2: "unpack 2550136832 = Label a b c d"
    by (cases "unpack 2550136832")
  with tag_codec_errors [of 2550136832] i2 al
  have r2: "unpack 2550136832 = Label filler CHR ''A'' CHR ''A'' CHR ''A''" by simp
  obtain a b c d where u3: "unpack 2483027968 = Label a b c d"
    by (cases "unpack 2483027968")
  with tag_codec_errors [of 2483027968] i3 al
  have r3: "unpack 2483027968 = Label CHR '' '' CHR ''A'' CHR ''A'' CHR ''A''" by simp
  have "\<not> list_all (\<lambda>c. c \<in> set alphabet)
          (label_chars (Label CHR ''a'' CHR ''B'' CHR ''C'' CHR ''D''))"
    by (simp add: alphabet_def)
  with tag_codec_errors [of _ _ "Label CHR ''a'' CHR ''B'' CHR ''C'' CHR ''D''"]
  have r4: "pack (Label CHR ''a'' CHR ''B'' CHR ''C'' CHR ''D'') = Inl MalformedTag"
    by blast
  from i1 i2 i3 r1 r2 r3 r4 show ?thesis by simp
qed

section \<open>Properties of the integer encoding\<close>

lemma bit_zigzag:
  "bit (zigzag n) k \<longleftrightarrow> k < 64 \<and> ((1 \<le> k \<and> bit n (k - 1)) \<noteq> bit n 63)"
  unfolding zigzag_def
  apply (simp only: bit_xor_iff bit_push_bit_iff bit_signed_drop_bit_iff possible_bit_word)
  apply (cases "k = 0")
   apply simp
  apply (cases "k < 64")
   apply (auto dest: bit_imp_le_length)
  done

lemma neg_and_1:
  "bit (- (u AND 1) :: 64 word) k \<longleftrightarrow> k < 64 \<and> bit u 0"
proof (cases "bit u 0")
  case True
  then have "u AND 1 = 1" by (simp add: and_one_eq bit_0 mod_2_eq_odd)
  then show ?thesis using True by (simp add: bit_simps)
next
  case False
  then have "u AND 1 = 0" by (simp add: and_one_eq bit_0 mod_2_eq_odd)
  then show ?thesis using False by simp
qed

lemma unzigzag_zigzag: "unzigzag (zigzag n) = n"
proof (rule bit_eqI)
  fix k
  assume "possible_bit TYPE(64 word) k"
  then have k: "k < 64" by simp
  show "bit (unzigzag (zigzag n)) k = bit n k"
    unfolding unzigzag_def
    apply (simp only: bit_xor_iff bit_drop_bit_eq neg_and_1 bit_zigzag)
    using k by (cases "k = 63") (auto simp: bit_zigzag)
qed


declare encode_varint.simps [simp del]

lemma bit_128: "bit (128 :: int) n \<longleftrightarrow> n = 7"
proof -
  have "(128 :: int) = 2 ^ 7" by simp
  then show ?thesis by (simp only: bit_simps) auto
qed

lemma bit_127: "bit (127 :: int) n \<longleftrightarrow> n < 7"
proof -
  have "(127 :: int) = mask 7" by (simp add: mask_eq_exp_minus_1)
  then show ?thesis by (simp only: bit_simps) auto
qed

lemma unat_drop_bit_7: "unat (drop_bit 7 u) = unat u div 128" for u :: "64 word"
  by (simp add: drop_bit_eq_div unat_div)

lemma encode_varint_length_pos: "0 < length (encode_varint u)"
  by (subst encode_varint.simps) simp

lemma encode_varint_width:
  "unat u < 2 ^ (7 * length (encode_varint u))
   \<and> (length (encode_varint u) = 1 \<or> 2 ^ (7 * (length (encode_varint u) - 1)) \<le> unat u)"
proof (induction u rule: encode_varint.induct)
  case (1 u)
  show ?case
  proof (cases "u < 128")
    case True
    then have "unat u < 128" by (simp add: word_less_nat_alt)
    moreover have "encode_varint u = [ucast u]"
      using True by (subst encode_varint.simps) simp
    ultimately show ?thesis by simp
  next
    case False
    let ?v = "drop_bit 7 u"
    let ?n = "length (encode_varint ?v)"
    have len: "length (encode_varint u) = Suc ?n"
      using False by (subst encode_varint.simps) simp
    have ge: "128 \<le> unat u"
      using False by (simp add: word_less_nat_alt not_less)
    from "1.IH" [OF False]
    have up: "unat u div 128 < 2 ^ (7 * ?n)"
      and lo: "?n = 1 \<or> 2 ^ (7 * (?n - 1)) \<le> unat u div 128"
      by (simp_all add: unat_drop_bit_7)
    have "unat u < 128 * 2 ^ (7 * ?n)"
      using up by (simp add: div_less_iff_less_mult mult.commute)
    also have "(128::nat) * 2 ^ (7 * ?n) = 2 ^ (7 * Suc ?n)"
      by (simp add: power_add)
    finally have upper: "unat u < 2 ^ (7 * Suc ?n)" .
    have lower: "(2::nat) ^ (7 * ?n) \<le> unat u"
    proof (cases "?n = 1")
      case True
      then show ?thesis using ge by simp
    next
      case False
      with lo have "2 ^ (7 * (?n - 1)) * 128 \<le> unat u"
        by (simp add: less_eq_div_iff_mult_less_eq)
      moreover have "0 < ?n" by (rule encode_varint_length_pos)
      then have "(2::nat) ^ (7 * (?n - 1)) * 128 = 2 ^ (7 * ?n)"
        by (cases ?n) (simp_all add: power_add)
      ultimately show ?thesis by simp
    qed
    show ?thesis using upper lower by (simp add: len)
  qed
qed

lemma encode_varint_le_10: "length (encode_varint u) \<le> 10"
proof (rule ccontr)
  assume "\<not> length (encode_varint u) \<le> 10"
  then have big: "11 \<le> length (encode_varint u)" by simp
  then have "(2::nat) ^ 70 \<le> 2 ^ (7 * (length (encode_varint u) - 1))"
    by (intro power_increasing) simp_all
  moreover have "2 ^ (7 * (length (encode_varint u) - 1)) \<le> unat u"
    using encode_varint_width [of u] big by auto
  moreover have "unat u < 2 ^ 64" using unsigned_less [of u] by simp
  ultimately show False by simp
qed

lemma is_varint_encode: "is_varint (encode_varint u)"
proof (induction u rule: encode_varint.induct)
  case (1 u)
  show ?case
  proof (cases "u < 128")
    case True
    then have "take_bit 7 u = u"
      using less_mask_eq [of u 7] by (simp add: take_bit_eq_mask)
    then have "\<not> bit u 7" by (metis bit_take_bit_iff less_irrefl)
    then have "(ucast u :: byte) AND 128 = 0"
      by (intro bit_eqI) (auto simp: bit_simps bit_128)
    then show ?thesis using True by (subst encode_varint.simps) simp
  next
    case False
    have nz: "(ucast (u AND 127) OR 128 :: byte) AND 128 \<noteq> 0"
    proof
      assume "(ucast (u AND 127) OR 128 :: byte) AND 128 = 0"
      then have "\<not> bit ((ucast (u AND 127) OR 128 :: byte) AND 128) 7" by simp
      then show False by (simp add: bit_simps bit_128)
    qed
    obtain c cs where c: "encode_varint (drop_bit 7 u) = c # cs"
      using encode_varint_length_pos [of "drop_bit 7 u"]
      by (cases "encode_varint (drop_bit 7 u)") auto
    show ?thesis
      using False "1.IH" [OF False] nz by (subst encode_varint.simps) (simp add: c)
  qed
qed


lemma low7_high: "ucast (b AND 127 :: byte) OR push_bit 7 (drop_bit 7 u) = u"
  if "b = ucast u \<or> b = (ucast (u AND 127) OR 128)" for u :: "64 word"
proof (rule bit_eqI)
  fix n
  assume "possible_bit TYPE(64 word) n"
  then have n: "n < 64" by simp
  from that show "bit (ucast (b AND 127 :: byte) OR push_bit 7 (drop_bit 7 u)) n = bit u n"
    using n by (cases "n < 7") (auto simp: bit_simps bit_127 bit_128)
qed

lemma varint_value_encode: "varint_value (encode_varint u) = u"
proof (induction u rule: encode_varint.induct)
  case (1 u)
  show ?case
  proof (cases "u < 128")
    case True
    then have "drop_bit 7 u = 0"
      by (simp add: drop_bit_eq_div div_word_less)
    with low7_high [of "ucast u" u] have "ucast (ucast u AND 127 :: byte) = u" by simp
    then show ?thesis using True by (subst encode_varint.simps) simp
  next
    case False
    show ?thesis
      using False "1.IH" [OF False] low7_high [of "ucast (u AND 127) OR 128" u]
      by (subst encode_varint.simps) simp
  qed
qed

lemma decode_varint_from_ok:
  "is_varint bs \<Longrightarrow> k + length bs \<le> 10 \<Longrightarrow>
   decode_varint_from k acc pos (bs @ rest)
     = Inr (acc OR push_bit (7 * k) (varint_value bs), pos + length bs, rest)"
proof (induction bs arbitrary: k acc pos rule: is_varint.induct)
  case 1
  then show ?case by simp
next
  case (2 b)
  then show ?case by simp
next
  case (3 b c bs)
  have "decode_varint_from k acc pos ((b # c # bs) @ rest)
      = decode_varint_from (Suc k) (acc OR push_bit (7 * k) (ucast (b AND 127))) (Suc pos)
          ((c # bs) @ rest)"
    using "3.prems" by (simp add: Let_def)
  also have "\<dots> = Inr (acc OR push_bit (7 * k) (ucast (b AND 127))
                        OR push_bit (7 * Suc k) (varint_value (c # bs)),
                      Suc pos + length (c # bs), rest)"
    using "3.prems" by (subst "3.IH") (simp_all add: or.assoc)
  also have "acc OR push_bit (7 * k) (ucast (b AND 127))
                 OR push_bit (7 * Suc k) (varint_value (c # bs))
           = acc OR push_bit (7 * k) (varint_value (b # c # bs))"
    by (simp only: varint_value.simps push_bit_or push_bit_push_bit or.assoc)
       (simp add: add.commute)
  finally show ?case by simp
qed

lemma decode_varint_from_overlong:
  "is_varint bs \<Longrightarrow> 10 < k + length bs \<Longrightarrow> k \<le> 10 \<Longrightarrow>
   decode_varint_from k acc pos (bs @ rest) = Inl (Malformed (pos + (10 - k)))"
proof (induction bs arbitrary: k acc pos rule: is_varint.induct)
  case 1
  then show ?case by simp
next
  case (2 b)
  then show ?case by simp
next
  case (3 b c bs)
  show ?case
  proof (cases "k = 10")
    case True
    then show ?thesis by simp
  next
    case False
    with "3.prems" have k: "k < 10" by simp
    have "decode_varint_from k acc pos ((b # c # bs) @ rest)
        = decode_varint_from (Suc k) (acc OR push_bit (7 * k) (ucast (b AND 127))) (Suc pos)
            ((c # bs) @ rest)"
      using "3.prems" k by (simp add: Let_def)
    also have "\<dots> = Inl (Malformed (Suc pos + (10 - Suc k)))"
      using "3.prems" k by (subst "3.IH") simp_all
    finally show ?thesis using k by simp
  qed
qed

lemma varint_value_bits: "bit (varint_value bs) q \<Longrightarrow> q < 7 * length bs"
proof (induction bs arbitrary: q)
  case Nil
  then show ?case by simp
next
  case (Cons b bs)
  from Cons.prems have "q < 7 \<or> (7 \<le> q \<and> bit (varint_value bs) (q - 7))"
    by (auto simp: bit_simps bit_127)
  then show ?case using Cons.IH [of "q - 7"] by auto
qed

lemma varint_value_less: "unat (varint_value bs) < 2 ^ (7 * length bs)"
proof -
  have "take_bit (7 * length bs) (varint_value bs) = varint_value bs"
    by (rule bit_eqI) (auto simp: bit_simps dest: varint_value_bits)
  then have "unat (varint_value bs) = take_bit (7 * length bs) (unat (varint_value bs))"
    by (metis unsigned_take_bit_eq)
  then show ?thesis
    by (metis take_bit_nat_less_exp)
qed

lemma decode_int_encode_int:
  "decode_int pos (encode_int n @ rest) = Inr (n, pos + length (encode_int n), rest)"
proof -
  have "decode_varint pos (encode_varint (zigzag n) @ rest)
      = Inr (varint_value (encode_varint (zigzag n)),
             pos + length (encode_varint (zigzag n)), rest)"
    unfolding decode_varint_def
    using decode_varint_from_ok [OF is_varint_encode, of 0 "zigzag n" 0 pos rest]
      encode_varint_le_10 [of "zigzag n"]
    by simp
  then show ?thesis
    by (simp add: decode_int_def encode_int_def varint_value_encode unzigzag_zigzag)
qed

text \<open>
  C6. The wire form of a signed 64-bit integer \<open>n\<close> is a variable-length integer (every
  byte but the last has the continuation bit) whose 7-bit groups spell the zig-zagged
  value, from which \<open>n\<close> is recovered. Its length \<open>k\<close> is the minimal width: 1 to 10 bytes,
  the zig-zagged value fits in \<open>7k\<close> bits and, unless \<open>k = 1\<close>, does not fit in \<open>7(k - 1)\<close>
  bits; no variable-length integer with the same value is shorter. The decoder returns \<open>n\<close>
  on this form; it accepts every variable-length integer of at most 10 bytes, minimal or
  not, and fails with \<^verbatim>\<open>Malformed\<close> on one of more than 10 bytes.
\<close>

theorem integer_wire_form:
  "is_varint (encode_int n)
   \<and> varint_value (encode_int n) = zigzag n
   \<and> unzigzag (zigzag n) = n
   \<and> 1 \<le> length (encode_int n) \<and> length (encode_int n) \<le> 10
   \<and> unat (zigzag n) < 2 ^ (7 * length (encode_int n))
   \<and> (length (encode_int n) = 1 \<or> 2 ^ (7 * (length (encode_int n) - 1)) \<le> unat (zigzag n))
   \<and> (is_varint cs \<and> varint_value cs = zigzag n \<longrightarrow> length (encode_int n) \<le> length cs)
   \<and> decode_int pos (encode_int n @ rest) = Inr (n, pos + length (encode_int n), rest)
   \<and> (is_varint bs \<and> length bs \<le> 10 \<longrightarrow>
        decode_int pos (bs @ rest) = Inr (unzigzag (varint_value bs), pos + length bs, rest))
   \<and> (is_varint ds \<and> 10 < length ds \<longrightarrow>
        decode_int pos (ds @ rest) = Inl (Malformed (pos + 10)))"
proof -
  let ?k = "length (encode_int n)"
  have shape: "is_varint (encode_int n)"
    by (simp add: encode_int_def is_varint_encode)
  have val: "varint_value (encode_int n) = zigzag n"
    by (simp add: encode_int_def varint_value_encode)
  have pos: "1 \<le> ?k"
    using encode_varint_length_pos [of "zigzag n"]
    by (simp add: encode_int_def Suc_le_eq del: length_greater_0_conv)
  have le: "?k \<le> 10"
    by (simp add: encode_int_def encode_varint_le_10)
  have fits: "unat (zigzag n) < 2 ^ (7 * ?k)"
    and least: "?k = 1 \<or> 2 ^ (7 * (?k - 1)) \<le> unat (zigzag n)"
    using encode_varint_width [of "zigzag n"] by (simp_all add: encode_int_def)
  have shortest: "?k \<le> length cs" if cs: "is_varint cs" "varint_value cs = zigzag n"
  proof (rule ccontr)
    assume "\<not> ?k \<le> length cs"
    then have lt: "length cs \<le> ?k - 1" and k: "?k \<noteq> 1"
      using cs(1) by (cases cs; simp)+
    have "unat (zigzag n) < 2 ^ (7 * length cs)"
      using varint_value_less [of cs] by (simp add: cs(2))
    also have "(2::nat) ^ (7 * length cs) \<le> 2 ^ (7 * (?k - 1))"
      using lt by (intro power_increasing) simp_all
    also have "\<dots> \<le> unat (zigzag n)" using least k by simp
    finally show False by simp
  qed
  have accept: "decode_int pos (bs @ rest)
      = Inr (unzigzag (varint_value bs), pos + length bs, rest)"
    if "is_varint bs" "length bs \<le> 10"
    using decode_varint_from_ok [OF that(1), of 0 0 pos rest] that(2)
    by (simp add: decode_int_def decode_varint_def)
  have reject: "decode_int pos (ds @ rest) = Inl (Malformed (pos + 10))"
    if "is_varint ds" "10 < length ds"
    using decode_varint_from_overlong [OF that(1), of 0 0 pos rest] that(2)
    by (simp add: decode_int_def decode_varint_def)
  from shape val pos le fits least shortest accept reject show ?thesis
    by (simp add: unzigzag_zigzag decode_int_encode_int)
qed

theorem integer_wire_form_witness:
  "encode_int (- 3) = [5]
   \<and> encode_int 64 = [128, 1]
   \<and> is_varint [133, 128, 0] \<and> length [133, 128, 0 :: byte] \<le> 10
   \<and> varint_value [133, 128, 0] = zigzag (- 3)
   \<and> decode_int 4 ([133, 128, 0] @ [9]) = Inr (- 3, 7, [9])
   \<and> is_varint [128, 128, 128, 128, 128, 128, 128, 128, 128, 128, 0]
   \<and> decode_int 4 ([128, 128, 128, 128, 128, 128, 128, 128, 128, 128, 0] @ [9])
       = Inl (Malformed 14)"
proof -
  have e: "encode_int (- 3) = [5]" "encode_int 64 = [128, 1]"
    by code_simp+
  have v: "is_varint [133, 128, 0]"
    "is_varint [128, 128, 128, 128, 128, 128, 128, 128, 128, 128, 0]"
    by simp_all
  have z: "varint_value [133, 128, 0] = zigzag (- 3)" "unzigzag (zigzag (- 3)) = - 3"
    by code_simp+
  from integer_wire_form [of "- 3" "[133, 128, 0]" 4 "[9]" "[133, 128, 0]"
      "[128, 128, 128, 128, 128, 128, 128, 128, 128, 128, 0]"] v z e
  show ?thesis by simp
qed

section \<open>Properties of the dispatcher\<close>

text \<open>
  C8. For every inbound Request frame whose (component id, command id) pair has no
  registered handler, the dispatcher emits exactly one frame to the session: an Error
  frame with code \<^verbatim>\<open>CommandNotFound\<close> and the message id of the request. Nothing is
  fanned out to other sessions, and the close state of the session is what it was: the
  session is not closed.
\<close>

theorem unknown_command_error_frame:
  assumes "f_kind f = Request" and "reg (f_component f, f_command f) = None"
  shows "\<exists>s' e. dispatch reg s f = Some (s', [])
           \<and> s_outbound s' = s_outbound s @ [e]
           \<and> f_kind e = Error
           \<and> f_error e = CommandNotFound
           \<and> f_msgId e = f_msgId f
           \<and> s_close s' = s_close s
           \<and> s_handle s' = s_handle s
           \<and> s_subscribed s' = s_subscribed s"
  using assms by (simp add: dispatch_def dispatch_request_def enqueue_def reply_def)

theorem unknown_command_error_frame_witness:
  "f_kind request_999_1 = Request
   \<and> registry_9_1 (f_component request_999_1, f_command request_999_1) = None
   \<and> (\<exists>s' e. dispatch registry_9_1 session_7 request_999_1 = Some (s', [])
         \<and> s_outbound s' = [e]
         \<and> f_kind e = Error
         \<and> f_error e = CommandNotFound
         \<and> f_msgId e = 42
         \<and> s_close s' = Open)"
proof -
  have k: "f_kind request_999_1 = Request"
    by (simp add: request_999_1_def)
  have n: "registry_9_1 (f_component request_999_1, f_command request_999_1) = None"
    by (simp add: request_999_1_def registry_9_1_def)
  from unknown_command_error_frame [of request_999_1 registry_9_1 session_7, OF k n]
  obtain s' e where "dispatch registry_9_1 session_7 request_999_1 = Some (s', [])"
    and "s_outbound s' = s_outbound session_7 @ [e]"
    and "f_kind e = Error" and "f_error e = CommandNotFound"
    and "f_msgId e = f_msgId request_999_1" and "s_close s' = s_close session_7"
    by blast
  moreover have "s_outbound session_7 = []" "f_msgId request_999_1 = 42"
    "s_close session_7 = Open"
    by (simp_all add: session_7_def request_999_1_def)
  ultimately show ?thesis using k n by auto
qed

end
